theory Spec2Isabelle
  imports Main
begin

section \<open>Bytes and errors\<close>

text \<open>
  A Go \<^verbatim>\<open>[]byte\<close> and a Go \<^verbatim>\<open>string\<close> are both sequences of bytes; a HOL
  \<^typ>\<open>char\<close> is one byte (256 values), so both are modelled as \<^typ>\<open>string\<close>.
\<close>

type_synonym bytes = string

text \<open>
  The sentinel errors of the package (\<^verbatim>\<open>var ( ErrAlgorithmNotAvailable = errors.New(...) ... )\<close>)
  are compared by identity in Go; here they are distinct constructors.
  \<^verbatim>\<open>fmt.Errorf("<context>: %s", err)\<close> builds a fresh error that is none of the sentinels:
  \<open>Errorf context err\<close>. \<open>CorruptInputError n\<close> is the error of \<^verbatim>\<open>encoding/base64\<close>
  (the offset of the offending input byte); \<open>ExternalError\<close> is an error of a
  collaborator outside the package (\<^verbatim>\<open>encoding/json\<close>, the hash or RSA primitives).
\<close>

datatype error =
    ErrAlgorithmNotAvailable
  | ErrInvalidSignature
  | ErrMalformedToken
  | ErrInvalidSigner
  | ErrExpired
  | ErrNotReady
  | Errorf string error
  | CorruptInputError nat
  | ExternalError string

section \<open>\<^verbatim>\<open>var enc = base64.URLEncoding\<close>\<close>

text \<open>
  The codec is Go's \<^verbatim>\<open>encoding/base64\<close> with the URL alphabet, the standard padding
  character and non-strict decoding. It is a library the package calls, so it is
  modelled from the documented behaviour of \<^verbatim>\<open>Encoding.Encode\<close>, \<^verbatim>\<open>Encoding.EncodedLen\<close>
  and \<^verbatim>\<open>Encoding.Decode\<close>: three bytes become four characters of the alphabet, a final
  group of one or two bytes is padded with \<^verbatim>\<open>=\<close>; decoding skips \<^verbatim>\<open>\r\<close> and \<^verbatim>\<open>\n\<close>,
  reports the offset of the first offending byte and returns the bytes written so far.
  The shifts and masks of the library on values below \<open>2 ^ 24\<close> are written with
  \<open>div\<close> and \<open>mod\<close> on \<^typ>\<open>nat\<close>.
\<close>

definition encodeURL :: string where
  "encodeURL = ''ABCDEFGHIJKLMNOPQRSTUVWXYZabcdefghijklmnopqrstuvwxyz0123456789-_''"

definition padChar :: char where
  "padChar = CHR ''=''"

text \<open>The decode map: \<open>0xFF\<close> everywhere, then \<open>decodeMap[encoder[i]] = i\<close>.\<close>

fun fill_decodeMap :: "string \<Rightarrow> nat \<Rightarrow> (char \<Rightarrow> nat) \<Rightarrow> (char \<Rightarrow> nat)" where
  "fill_decodeMap [] i m = m"
| "fill_decodeMap (c # cs) i m = fill_decodeMap cs (Suc i) (m(c := i))"

definition decodeMap :: "char \<Rightarrow> nat" where
  "decodeMap = fill_decodeMap encodeURL 0 (\<lambda>_. 255)"

definition EncodedLen :: "nat \<Rightarrow> nat" where
  "EncodedLen n = (n + 2) div 3 * 4"

text \<open>\<^verbatim>\<open>enc.Encode(dst, src)\<close>: the bytes written to \<open>dst\<close>, which are \<open>EncodedLen (length src)\<close> many.\<close>

fun enc_Encode :: "bytes \<Rightarrow> bytes" where
  "enc_Encode (a # b # c # src) =
     (let val = of_char a * 65536 + of_char b * 256 + of_char c in
      [encodeURL ! (val div 262144 mod 64), encodeURL ! (val div 4096 mod 64),
       encodeURL ! (val div 64 mod 64), encodeURL ! (val mod 64)] @ enc_Encode src)"
| "enc_Encode [a, b] =
     (let val = of_char a * 65536 + of_char b * 256 in
      [encodeURL ! (val div 262144 mod 64), encodeURL ! (val div 4096 mod 64),
       encodeURL ! (val div 64 mod 64), padChar])"
| "enc_Encode [a] =
     (let val = of_char a * 65536 in
      [encodeURL ! (val div 262144 mod 64), encodeURL ! (val div 4096 mod 64),
       padChar, padChar])"
| "enc_Encode [] = []"

definition newline :: "char \<Rightarrow> bool" where
  "newline c \<longleftrightarrow> c = CHR 0x0A \<or> c = CHR 0x0D"

fun skip_newlines :: "bytes \<Rightarrow> nat \<Rightarrow> bytes \<times> nat" where
  "skip_newlines [] si = ([], si)"
| "skip_newlines (c # src) si =
     (if newline c then skip_newlines src (Suc si) else (c # src, si))"

text \<open>
  The end of one quantum: the sextets collected in \<open>dbuf\<close> (missing ones are zero) are
  assembled into a 24-bit value and the first \<open>dlen - 1\<close> of its three bytes are written.
\<close>

definition quantum_bytes :: "nat list \<Rightarrow> nat \<Rightarrow> bytes" where
  "quantum_bytes dbuf dlen =
     (let d = dbuf @ replicate (4 - length dbuf) 0;
          val = d ! 0 * 262144 + d ! 1 * 4096 + d ! 2 * 64 + d ! 3
      in take (dlen - 1) [char_of (val div 65536), char_of (val div 256), char_of val])"

text \<open>
  A padding character was read at offset \<open>si - 1\<close> with \<open>length dbuf\<close> sextets collected:
  it is misplaced after none or one sextet; after two a second \<^verbatim>\<open>=\<close> must follow;
  anything but line breaks after the padding is trailing garbage, reported after the
  bytes of the quantum have been written.
\<close>

definition padding_tail :: "nat list \<Rightarrow> bytes \<Rightarrow> nat \<Rightarrow> bytes \<times> error option" where
  "padding_tail dbuf src si =
     (if length dbuf < 2 then ([], Some (CorruptInputError (si - 1)))
      else
        (let r = (if length dbuf = 2 then
                    (let (src', si') = skip_newlines src si in
                     case src' of
                       [] \<Rightarrow> Inl (CorruptInputError si')
                     | c # src'' \<Rightarrow>
                         if c \<noteq> padChar then Inl (CorruptInputError (si' - 1))
                         else Inr (src'', Suc si'))
                  else Inr (src, si))
         in case r of
              Inl e \<Rightarrow> ([], Some e)
            | Inr (src1, si1) \<Rightarrow>
                (let (src2, si2) = skip_newlines src1 si1 in
                 (quantum_bytes dbuf (length dbuf),
                  if src2 \<noteq> [] then Some (CorruptInputError si2) else None))))"

text \<open>
  The decoding loop, one input byte at a time: \<open>dbuf\<close> holds the sextets of the current
  quantum, \<open>si\<close> is the offset of the next input byte. The result is the bytes written
  to the destination and the error, if any.
\<close>

fun decode_loop :: "nat list \<Rightarrow> bytes \<Rightarrow> nat \<Rightarrow> bytes \<times> error option" where
  "decode_loop dbuf [] si =
     (if dbuf = [] then ([], None) else ([], Some (CorruptInputError (si - length dbuf))))"
| "decode_loop dbuf (c # src) si =
     (let out = decodeMap c in
      if out \<noteq> 255 then
        (if length dbuf = 3 then
           (let (ws, e) = decode_loop [] src (Suc si) in (quantum_bytes (dbuf @ [out]) 4 @ ws, e))
         else decode_loop (dbuf @ [out]) src (Suc si))
      else if newline c then decode_loop dbuf src (Suc si)
      else if c \<noteq> padChar then ([], Some (CorruptInputError si))
      else padding_tail dbuf src (Suc si))"

text \<open>
  \<^verbatim>\<open>enc.Decode(dst, src)\<close> with \<open>length dst = dstlen\<close>: \<open>Some (dst[:n], err)\<close>, or \<open>None\<close> when
  a byte would be written beyond the destination, which is a run-time panic in Go.
\<close>

definition enc_Decode :: "nat \<Rightarrow> bytes \<Rightarrow> (bytes \<times> error option) option" where
  "enc_Decode dstlen src =
     (let r = decode_loop [] src 0 in
      if length (fst r) > dstlen then None else Some r)"

section \<open>Helpers of the package\<close>

text \<open>\<^verbatim>\<open>bytes.TrimRight(s, cutset)\<close> removes the trailing bytes that occur in \<open>cutset\<close>.\<close>

definition TrimRight :: "bytes \<Rightarrow> string \<Rightarrow> bytes" where
  "TrimRight s cutset = rev (dropWhile (\<lambda>c. c \<in> set cutset) (rev s))"

text \<open>
  \<^verbatim>\<open>func encode(b []byte) ([]byte, error)\<close>: the buffer of \<open>EncodedLen (length b)\<close> bytes is
  filled by \<^verbatim>\<open>enc.Encode\<close> and the padding is trimmed; the error is always \<^verbatim>\<open>nil\<close>.
\<close>

definition encode :: "bytes \<Rightarrow> error + bytes" where
  "encode b = (let b64 = enc_Encode b; b64 = TrimRight b64 ''='' in Inr b64)"

text \<open>\<^verbatim>\<open>func encodeJSON(jsonable interface{}) ([]byte, error)\<close>, with \<^verbatim>\<open>json.Marshal\<close> as a parameter.\<close>

definition encodeJSON :: "('v \<Rightarrow> error + bytes) \<Rightarrow> 'v \<Rightarrow> error + bytes" where
  "encodeJSON marshal jsonable =
     (case marshal jsonable of Inl err \<Rightarrow> Inl err | Inr b \<Rightarrow> encode b)"

text \<open>\<^verbatim>\<open>func fixPadding(b []byte) []byte\<close>\<close>

definition fixPadding :: "bytes \<Rightarrow> bytes" where
  "fixPadding b =
     (let n = length b mod 4 in
      if n > 0 then b @ replicate (4 - n) (CHR ''='') else b)"

text \<open>\<^verbatim>\<open>func maxlen(a [][]byte) int\<close>: the loop over \<open>a\<close> with the running maximum.\<close>

definition maxlen :: "bytes list \<Rightarrow> nat" where
  "maxlen a = foldl (\<lambda>max b. if length b > max then length b else max) 0 a"

text \<open>
  \<^verbatim>\<open>bytes.Split(s, sep)\<close> for a separator of one byte, as in \<^verbatim>\<open>bytes.Split(token, []byte("."))\<close>:
  the subslices between the separators, one more than there are separators.
\<close>

fun Split :: "bytes \<Rightarrow> char \<Rightarrow> bytes list" where
  "Split [] sep = [[]]"
| "Split (c # s) sep =
     (if c = sep then [] # Split s sep
      else (let r = Split s sep in (c # hd r) # tl r))"

section \<open>Verifier and Signer\<close>

text \<open>
  A value of the interface \<^verbatim>\<open>Verifier\<close> is the record of its methods. \<open>KeyID\<close> is
  \<open>Some k\<close> when the dynamic type also has the method \<^verbatim>\<open>KeyID() string\<close> (the type
  assertion \<^verbatim>\<open>v.(namedKeyHolder)\<close> succeeds and \<^verbatim>\<open>KeyID()\<close> returns \<open>k\<close>), and \<open>None\<close> when it
  has not. \<^verbatim>\<open>Verify\<close> returns \<open>None\<close> for \<^verbatim>\<open>nil\<close>. A \<^verbatim>\<open>Signer\<close> is a \<^verbatim>\<open>Verifier\<close> with \<^verbatim>\<open>Sign\<close>.
\<close>

record Verifier =
  Algorithm :: string
  Verify :: "bytes \<Rightarrow> bytes \<Rightarrow> error option"
  KeyID :: "string option"

record Signer = Verifier +
  Sign :: "bytes \<Rightarrow> error + bytes"

section \<open>The JSON service\<close>

text \<open>
  \<^verbatim>\<open>encoding/json\<close> is outside the package; its functions at the types the package uses
  are parameters. \<open>Unmarshal\<close> is \<^verbatim>\<open>json.Unmarshal(b, &claims)\<close>: it takes the state of
  the caller's claims target before the call and returns its state after the call,
  with the error (\<open>None\<close> for \<^verbatim>\<open>nil\<close>).
\<close>

record encode_header =
  eh_Type :: string
  eh_Algorithm :: string
  eh_KeyID :: string

record header =
  h_Algorithm :: string
  h_KeyID :: string

record lifetime =
  ExpirationTime :: int
  NotBefore :: int

record ('a, 'c) json =
  Marshal_header :: "encode_header \<Rightarrow> error + bytes"
  Marshal :: "'a \<Rightarrow> error + bytes"
  Unmarshal_header :: "bytes \<Rightarrow> error + header"
  Unmarshal :: "bytes \<Rightarrow> 'c \<Rightarrow> 'c \<times> error option"
  Unmarshal_lifetime :: "bytes \<Rightarrow> error + lifetime"

section \<open>Encode\<close>

text \<open>
  \<^verbatim>\<open>func Encode(sig Signer, claims interface{}) ([]byte, error)\<close>. The second component
  of the result lists the arguments of the calls of \<^verbatim>\<open>sig.Sign\<close>, in order.
\<close>

definition Encode ::
  "('a, 'c) json \<Rightarrow> 'z Signer_scheme \<Rightarrow> 'a \<Rightarrow> (error + bytes) \<times> bytes list" where
  "Encode js sig claims =
     (let keyID = (case KeyID sig of Some k \<Rightarrow> k | None \<Rightarrow> '''') in
      (case encodeJSON (Marshal_header js)
              \<lparr>eh_Type = ''JWT'', eh_Algorithm = Algorithm sig, eh_KeyID = keyID\<rparr> of
         Inl err \<Rightarrow> (Inl (Errorf ''cannot encode header'' err), [])
       | Inr header \<Rightarrow>
      (case encodeJSON (Marshal js) claims of
         Inl err \<Rightarrow> (Inl (Errorf ''cannot encode claims'' err), [])
       | Inr content \<Rightarrow>
      (let token = header @ [CHR ''.''];
           token = token @ content in
      (case Sign sig token of
         Inl err \<Rightarrow> (Inl (Errorf ''cannot sign'' err), [token])
       | Inr signature \<Rightarrow>
      (case encode signature of
         Inl err \<Rightarrow> (Inl (Errorf ''cannot encode signature'' err), [token])
       | Inr signature \<Rightarrow>
      (let token' = token @ [CHR ''.''];
           token' = token' @ signature in
       (Inr token', [token]))))))))"

section \<open>DecodeClaims\<close>

text \<open>
  The outcome of a call: what it returns (\<open>Returns None\<close> is \<^verbatim>\<open>nil\<close>) or a run-time panic;
  the state of the caller's claims target when the call ends; and the arguments
  \<open>(signature, data)\<close> of the calls of \<^verbatim>\<open>v.Verify\<close>, in order.
\<close>

datatype ret = Returns "error option" | Panics

record 'c outcome =
  ret :: ret
  target :: 'c
  verify_calls :: "(bytes \<times> bytes) list"

text \<open>
  \<^verbatim>\<open>func DecodeClaims(token []byte, v Verifier, claims interface{}) error\<close>.
  \<open>now\<close> is \<^verbatim>\<open>time.Now().Unix()\<close>. The three decodes share the buffer of
  \<open>maxlen chunks + 3\<close> bytes. The slice \<^verbatim>\<open>token[:len(token)-len(chunks[2])-1]\<close> is in range
  whenever there are three chunks.
\<close>

definition DecodeClaims ::
  "('a, 'c) json \<Rightarrow> int \<Rightarrow> bytes \<Rightarrow> 'z Verifier_scheme \<Rightarrow> 'c \<Rightarrow> 'c outcome" where
  "DecodeClaims js now token v claims =
     (let chunks = Split token (CHR ''.'') in
      if length chunks \<noteq> 3 then
        \<lparr>ret = Returns (Some ErrMalformedToken), target = claims, verify_calls = []\<rparr>
      else
      (let buf = maxlen chunks + 3 in
      (case enc_Decode buf (fixPadding (chunks ! 0)) of
         None \<Rightarrow> \<lparr>ret = Panics, target = claims, verify_calls = []\<rparr>
       | Some (b, Some err) \<Rightarrow>
           \<lparr>ret = Returns (Some (Errorf ''cannot base64 decode header'' err)),
            target = claims, verify_calls = []\<rparr>
       | Some (b, None) \<Rightarrow>
      (case Unmarshal_header js b of
         Inl err \<Rightarrow>
           \<lparr>ret = Returns (Some (Errorf ''cannot JSON decode header'' err)),
            target = claims, verify_calls = []\<rparr>
       | Inr header \<Rightarrow>
      (case enc_Decode buf (fixPadding (chunks ! 1)) of
         None \<Rightarrow> \<lparr>ret = Panics, target = claims, verify_calls = []\<rparr>
       | Some (b, Some err) \<Rightarrow>
           \<lparr>ret = Returns (Some (Errorf ''cannot base64 decode claims'' err)),
            target = claims, verify_calls = []\<rparr>
       | Some (b, None) \<Rightarrow>
      (case Unmarshal js b claims of
         (claims, Some err) \<Rightarrow>
           \<lparr>ret = Returns (Some (Errorf ''cannot JSON decode claims'' err)),
            target = claims, verify_calls = []\<rparr>
       | (claims, None) \<Rightarrow>
      (case Unmarshal_lifetime js b of
         Inl err \<Rightarrow>
           \<lparr>ret = Returns (Some (Errorf ''cannot JSON decode claims'' err)),
            target = claims, verify_calls = []\<rparr>
       | Inr lifetime \<Rightarrow>
      if h_Algorithm header \<noteq> Algorithm v then
        \<lparr>ret = Returns (Some ErrInvalidSigner), target = claims, verify_calls = []\<rparr>
      else if (case KeyID v of
                 Some k \<Rightarrow> h_KeyID header \<noteq> '''' \<and> k \<noteq> h_KeyID header
               | None \<Rightarrow> False) then
        \<lparr>ret = Returns (Some ErrInvalidSigner), target = claims, verify_calls = []\<rparr>
      else
      (case enc_Decode buf (fixPadding (chunks ! 2)) of
         None \<Rightarrow> \<lparr>ret = Panics, target = claims, verify_calls = []\<rparr>
       | Some (b, Some err) \<Rightarrow>
           \<lparr>ret = Returns (Some (Errorf ''cannot base64 decode signature'' err)),
            target = claims, verify_calls = []\<rparr>
       | Some (b, None) \<Rightarrow>
      (let beforeSign = take (length token - length (chunks ! 2) - 1) token in
      (case Verify v b beforeSign of
         Some err \<Rightarrow>
           \<lparr>ret = Returns (Some err), target = claims, verify_calls = [(b, beforeSign)]\<rparr>
       | None \<Rightarrow>
      if ExpirationTime lifetime \<noteq> 0 \<and> ExpirationTime lifetime < now then
        \<lparr>ret = Returns (Some ErrExpired), target = claims, verify_calls = [(b, beforeSign)]\<rparr>
      else if NotBefore lifetime \<noteq> 0 \<and> NotBefore lifetime > now then
        \<lparr>ret = Returns (Some ErrNotReady), target = claims, verify_calls = [(b, beforeSign)]\<rparr>
      else
        \<lparr>ret = Returns None, target = claims, verify_calls = [(b, beforeSign)]\<rparr>))))))))))"

section \<open>The base64 codec: alphabet and arithmetic\<close>

lemma fill_decodeMap_notin:
  "c \<notin> set cs \<Longrightarrow> fill_decodeMap cs k m c = m c"
  by (induction cs k m rule: fill_decodeMap.induct) auto

lemma fill_decodeMap_nth:
  "distinct cs \<Longrightarrow> i < length cs \<Longrightarrow> fill_decodeMap cs k m (cs ! i) = k + i"
proof (induction cs k m arbitrary: i rule: fill_decodeMap.induct)
  case (1 i m)
  then show ?case by simp
next
  case (2 c cs k m)
  show ?case
  proof (cases i)
    case 0
    with 2 show ?thesis by (simp add: fill_decodeMap_notin)
  next
    case (Suc j)
    with "2.prems" have "j < length cs" "distinct cs" by simp_all
    from "2.IH" [OF this(2) this(1)] Suc show ?thesis by (simp add: fun_upd_def)
  qed
qed

lemma distinct_encodeURL: "distinct encodeURL"
  by (simp add: encodeURL_def)

lemma length_encodeURL: "length encodeURL = 64"
  by (simp add: encodeURL_def)

lemma decodeMap_encodeURL: "k < 64 \<Longrightarrow> decodeMap (encodeURL ! k) = k"
  using fill_decodeMap_nth [OF distinct_encodeURL, of k 0 "\<lambda>_. 255"]
  by (simp add: decodeMap_def length_encodeURL)

lemma encodeURL_nth_mem: "k < 64 \<Longrightarrow> encodeURL ! k \<in> set encodeURL"
  by (simp add: length_encodeURL)

lemma padChar_notin: "padChar \<notin> set encodeURL"
  by (simp add: padChar_def encodeURL_def)

lemma dot_notin: "CHR ''.'' \<notin> set encodeURL"
  by (simp add: encodeURL_def)

lemma decodeMap_padChar: "decodeMap padChar = 255"
  by (simp add: decodeMap_def fill_decodeMap_notin [OF padChar_notin])

lemma newline_padChar: "\<not> newline padChar"
  by (simp add: newline_def padChar_def)

lemma of_char_lt_256: "(of_char c :: nat) < 256"
  by (simp add: of_char_def)

lemma sextets_recompose:
  fixes v :: nat
  shows "(v div 262144 mod 64) * 262144 + (v div 4096 mod 64) * 4096 +
         (v div 64 mod 64) * 64 + v mod 64 = v mod 16777216"
proof -
  have 1: "v div 64 mod 64 * 64 + v mod 64 = v mod 4096"
    using mod_mult2_eq [of v 64 64] by simp
  have 2: "v div 4096 mod 64 * 4096 + v mod 4096 = v mod 262144"
    using mod_mult2_eq [of v 4096 64] by simp
  have 3: "v div 262144 mod 64 * 262144 + v mod 262144 = v mod 16777216"
    using mod_mult2_eq [of v 262144 64] by simp
  from 1 2 3 show ?thesis by linarith
qed

lemma bytes_of_val:
  fixes A B C :: nat
  assumes "A < 256" "B < 256" "C < 256"
  shows "(A * 65536 + B * 256 + C) div 65536 = A"
    and "(A * 65536 + B * 256 + C) div 256 mod 256 = B"
    and "(A * 65536 + B * 256 + C) mod 256 = C"
    and "A * 65536 + B * 256 + C < 16777216"
proof -
  let ?v = "A * 65536 + B * 256 + C"
  have r: "B * 256 + C < 65536" using assms by simp
  have "?v = (B * 256 + C) + A * 65536" by simp
  then show "?v div 65536 = A" using r by simp
  have e: "?v = C + (A * 256 + B) * 256" by simp
  have "(C + (A * 256 + B) * 256) div 256 = (A * 256 + B) + C div 256"
    by (rule div_mult_self1) simp
  with e assms(3) have q: "?v div 256 = A * 256 + B"
    by (simp only: div_less add_0_right)
  have "(C + (A * 256 + B) * 256) mod 256 = C mod 256"
    by (rule mod_mult_self1)
  with e assms(3) show "?v mod 256 = C"
    by (simp only: mod_less)
  have "(B + A * 256) mod 256 = B mod 256"
    by (rule mod_mult_self1)
  with assms(2) have "(A * 256 + B) mod 256 = B"
    by (simp only: mod_less add.commute)
  with q show "?v div 256 mod 256 = B"
    by (simp only:)
  show "?v < 16777216" using assms by simp
qed

lemma quantum_bytes_val:
  "V = s0 * 262144 + s1 * 4096 + s2 * 64 + s3 \<Longrightarrow>
   quantum_bytes [s0, s1, s2, s3] dlen =
     take (dlen - 1) [char_of (V div 65536), char_of (V div 256), char_of V]"
  by (simp add: quantum_bytes_def Let_def)

lemma quantum_bytes_4:
  fixes a b c :: char
  defines "v \<equiv> of_char a * 65536 + of_char b * 256 + (of_char c :: nat)"
  shows "quantum_bytes [v div 262144 mod 64, v div 4096 mod 64, v div 64 mod 64, v mod 64] 4
         = [a, b, c]"
proof -
  note A = of_char_lt_256 [of a] of_char_lt_256 [of b] of_char_lt_256 [of c]
  note bv = bytes_of_val [OF A, folded v_def]
  have c2: "char_of (v div 256) = char_of (v div 256 mod 256)" by simp
  have c3: "char_of v = char_of (v mod 256)" by simp
  have V: "v = (v div 262144 mod 64) * 262144 + (v div 4096 mod 64) * 4096 +
               (v div 64 mod 64) * 64 + v mod 64"
    using sextets_recompose [of v] bv(4) by simp
  show ?thesis
    unfolding quantum_bytes_val [OF V] bv(1) c2 c3 bv(2) bv(3)
    by simp
qed

lemma quantum_bytes_3:
  fixes a b :: char
  defines "v \<equiv> of_char a * 65536 + of_char b * 256"
  shows "quantum_bytes [v div 262144 mod 64, v div 4096 mod 64, v div 64 mod 64] 3 = [a, b]"
proof -
  have v0: "v = of_char a * 65536 + of_char b * 256 + 0" by (simp add: v_def)
  have A: "(of_char a :: nat) < 256" "(of_char b :: nat) < 256" "(0 :: nat) < 256"
    by simp_all
  note bv = bytes_of_val [OF A, folded v0]
  have "v = 64 * (of_char a * 1024 + of_char b * 4)" by (simp add: v_def)
  then have m: "v mod 64 = 0" by (simp only: mod_mult_self1_is_0)
  have c2: "char_of (v div 256) = char_of (v div 256 mod 256)" by simp
  have "(v div 262144 mod 64) * 262144 + (v div 4096 mod 64) * 4096 +
        (v div 64 mod 64) * 64 + v mod 64 = v"
    using sextets_recompose [of v] bv(4) by (simp only: mod_less)
  with m have V: "v = (v div 262144 mod 64) * 262144 + (v div 4096 mod 64) * 4096 +
                      (v div 64 mod 64) * 64 + 0"
    by (simp only:)
  have "quantum_bytes [v div 262144 mod 64, v div 4096 mod 64, v div 64 mod 64] 3 =
        quantum_bytes [v div 262144 mod 64, v div 4096 mod 64, v div 64 mod 64, 0] 3"
    by (simp add: quantum_bytes_def)
  also have "\<dots> = take 2 [char_of (v div 65536), char_of (v div 256), char_of v]"
    unfolding quantum_bytes_val [OF V] by simp
  also have "\<dots> = [a, b]"
    unfolding bv(1) c2 bv(2) by (simp add: numeral_2_eq_2)
  finally show ?thesis .
qed

lemma quantum_bytes_2:
  fixes a :: char
  defines "v \<equiv> of_char a * 65536"
  shows "quantum_bytes [v div 262144 mod 64, v div 4096 mod 64] 2 = [a]"
proof -
  have v0: "v = of_char a * 65536 + 0 * 256 + 0" by (simp add: v_def)
  have A: "(of_char a :: nat) < 256" "(0 :: nat) < 256" "(0 :: nat) < 256"
    by simp_all
  note bv = bytes_of_val [OF A, folded v0]
  have "v = 4096 * (of_char a * 16)" by (simp add: v_def)
  then have m: "v mod 4096 = 0" by (simp only: mod_mult_self1_is_0)
  have "v div 64 mod 64 * 64 + v mod 64 = v mod 4096"
    using mod_mult2_eq [of v 64 64] by simp
  with m have m2: "v div 64 mod 64 * 64 + v mod 64 = 0" by (simp only:)
  have "(v div 262144 mod 64) * 262144 + (v div 4096 mod 64) * 4096 +
        (v div 64 mod 64) * 64 + v mod 64 = v"
    using sextets_recompose [of v] bv(4) by (simp only: mod_less)
  with m2 have V: "v = (v div 262144 mod 64) * 262144 + (v div 4096 mod 64) * 4096 + 0 * 64 + 0"
    by linarith
  have "quantum_bytes [v div 262144 mod 64, v div 4096 mod 64] 2 =
        quantum_bytes [v div 262144 mod 64, v div 4096 mod 64, 0, 0] 2"
    by (simp add: quantum_bytes_def numeral_2_eq_2)
  also have "\<dots> = take 1 [char_of (v div 65536), char_of (v div 256), char_of v]"
    unfolding quantum_bytes_val [OF V] by simp
  also have "\<dots> = [a]"
    unfolding bv(1) by simp
  finally show ?thesis .
qed

section \<open>Decoding what was encoded\<close>

lemma decode_loop_valid:
  "k < 64 \<Longrightarrow>
   decode_loop dbuf (encodeURL ! k # src) si =
     (if length dbuf = 3 then
        (let (ws, e) = decode_loop [] src (Suc si) in (quantum_bytes (dbuf @ [k]) 4 @ ws, e))
      else decode_loop (dbuf @ [k]) src (Suc si))"
  by (simp add: decodeMap_encodeURL)

lemma decode_loop_quad:
  assumes "s0 < 64" "s1 < 64" "s2 < 64" "s3 < 64"
  shows "decode_loop [] (encodeURL ! s0 # encodeURL ! s1 # encodeURL ! s2 # encodeURL ! s3 # src) si =
     (let (ws, e) = decode_loop [] src (Suc (Suc (Suc (Suc si)))) in
      (quantum_bytes [s0, s1, s2, s3] 4 @ ws, e))"
  by (simp add: decode_loop_valid assms del: decode_loop.simps)

lemma decode_loop_pad1:
  assumes "s0 < 64" "s1 < 64" "s2 < 64"
  shows "decode_loop [] [encodeURL ! s0, encodeURL ! s1, encodeURL ! s2, padChar] si =
     (quantum_bytes [s0, s1, s2] 3, None)"
  by (simp add: decode_loop_valid assms del: decode_loop.simps(2))
   (simp add: decodeMap_padChar newline_padChar padding_tail_def numeral_3_eq_3)

lemma decode_loop_pad2:
  assumes "s0 < 64" "s1 < 64"
  shows "decode_loop [] [encodeURL ! s0, encodeURL ! s1, padChar, padChar] si =
     (quantum_bytes [s0, s1] 2, None)"
  by (simp add: decode_loop_valid assms del: decode_loop.simps(2))
   (simp add: decodeMap_padChar newline_padChar padding_tail_def numeral_2_eq_2)

lemma enc_Encode_quad:
  "enc_Encode (a # b # c # src) =
     encodeURL ! ((of_char a * 65536 + of_char b * 256 + of_char c) div 262144 mod 64) #
     encodeURL ! ((of_char a * 65536 + of_char b * 256 + of_char c) div 4096 mod 64) #
     encodeURL ! ((of_char a * 65536 + of_char b * 256 + of_char c) div 64 mod 64) #
     encodeURL ! ((of_char a * 65536 + of_char b * 256 + of_char c) mod 64) # enc_Encode src"
  by (simp only: enc_Encode.simps Let_def append_Cons append_Nil)

lemma enc_Encode_pad1:
  "enc_Encode [a, b] =
     [encodeURL ! ((of_char a * 65536 + of_char b * 256) div 262144 mod 64),
      encodeURL ! ((of_char a * 65536 + of_char b * 256) div 4096 mod 64),
      encodeURL ! ((of_char a * 65536 + of_char b * 256) div 64 mod 64), padChar]"
  by (simp only: enc_Encode.simps Let_def)

lemma enc_Encode_pad2:
  "enc_Encode [a] =
     [encodeURL ! ((of_char a * 65536) div 262144 mod 64),
      encodeURL ! ((of_char a * 65536) div 4096 mod 64), padChar, padChar]"
  by (simp only: enc_Encode.simps Let_def)

lemma decode_loop_enc_Encode: "decode_loop [] (enc_Encode b) si = (b, None)"
proof (induction b arbitrary: si rule: enc_Encode.induct)
  case (1 a b c src)
  show ?case
    unfolding enc_Encode_quad
    by (subst decode_loop_quad)
       (simp_all only: "1.IH" quantum_bytes_4 Let_def prod.case
          append_Cons append_Nil mod_less_divisor zero_less_numeral)
next
  case (2 a b)
  show ?case
    unfolding enc_Encode_pad1
    by (subst decode_loop_pad1)
       (simp_all only: quantum_bytes_3 mod_less_divisor zero_less_numeral)
next
  case (3 a)
  show ?case
    unfolding enc_Encode_pad2
    by (subst decode_loop_pad2)
       (simp_all only: quantum_bytes_2 mod_less_divisor zero_less_numeral)
next
  case 4
  show ?case by simp
qed

section \<open>Trimming and restoring the padding\<close>

lemma TrimRight_keep:
  "x \<notin> set cs \<Longrightarrow> TrimRight (xs @ x # ys) cs = xs @ x # TrimRight ys cs"
  by (simp add: TrimRight_def dropWhile_append3)

lemma TrimRight_Nil: "TrimRight [] cs = []"
  by (simp add: TrimRight_def)

lemma fixPadding_quad: "fixPadding (a # b # c # d # s) = a # b # c # d # fixPadding s"
  by (simp add: fixPadding_def Let_def)

lemma encodeURL_nth_not_pad: "k < 64 \<Longrightarrow> encodeURL ! k \<noteq> CHR ''=''"
  using padChar_notin encodeURL_nth_mem [of k] by (auto simp: padChar_def)

lemma mod_64_less: "(n :: nat) mod 64 < 64"
  by simp

lemma TrimRight_quad:
  assumes "k < 64"
  shows "TrimRight (a # b # c # encodeURL ! k # s) ''='' =
         a # b # c # encodeURL ! k # TrimRight s ''=''"
  using TrimRight_keep [of "encodeURL ! k" "''=''" "[a, b, c]" s] encodeURL_nth_not_pad [OF assms]
  by simp

lemma TrimRight_pad1:
  assumes "k < 64"
  shows "TrimRight [a, b, encodeURL ! k, padChar] ''='' = [a, b, encodeURL ! k]"
  using encodeURL_nth_not_pad [OF assms] by (simp add: TrimRight_def padChar_def)

lemma TrimRight_pad2:
  assumes "k < 64"
  shows "TrimRight [a, encodeURL ! k, padChar, padChar] ''='' = [a, encodeURL ! k]"
  using encodeURL_nth_not_pad [OF assms] by (simp add: TrimRight_def padChar_def)

lemma fixPadding_3: "fixPadding [a, b, c] = [a, b, c, padChar]"
  by (simp add: fixPadding_def padChar_def)

lemma fixPadding_2: "fixPadding [a, b] = [a, b, padChar, padChar]"
  by (simp add: fixPadding_def padChar_def numeral_2_eq_2)

lemma fixPadding_TrimRight_enc_Encode:
  "fixPadding (TrimRight (enc_Encode b) ''='') = enc_Encode b"
proof (induction b rule: enc_Encode.induct)
  case (1 a b c src)
  show ?case
    unfolding enc_Encode_quad TrimRight_quad [OF mod_64_less] fixPadding_quad "1.IH" [OF refl]
    by (rule refl)
next
  case (2 a b)
  show ?case
    unfolding enc_Encode_pad1 TrimRight_pad1 [OF mod_64_less] fixPadding_3
    by (rule refl)
next
  case (3 a)
  show ?case
    unfolding enc_Encode_pad2 TrimRight_pad2 [OF mod_64_less] fixPadding_2
    by (rule refl)
next
  case 4
  show ?case by (simp add: TrimRight_Nil fixPadding_def)
qed

lemma set_TrimRight_enc_Encode:
  "set (TrimRight (enc_Encode b) ''='') \<subseteq> set encodeURL"
proof (induction b rule: enc_Encode.induct)
  case (1 a b c src)
  show ?case
    unfolding enc_Encode_quad TrimRight_quad [OF mod_64_less]
    using "1.IH" [OF refl] encodeURL_nth_mem [OF mod_64_less]
    by (simp only: set_simps insert_subset simp_thms)
next
  case (2 a b)
  show ?case
    unfolding enc_Encode_pad1 TrimRight_pad1 [OF mod_64_less]
    using encodeURL_nth_mem [OF mod_64_less]
    by (simp only: set_simps insert_subset empty_subsetI simp_thms)
next
  case (3 a)
  show ?case
    unfolding enc_Encode_pad2 TrimRight_pad2 [OF mod_64_less]
    using encodeURL_nth_mem [OF mod_64_less]
    by (simp only: set_simps insert_subset empty_subsetI simp_thms)
next
  case 4
  show ?case by (simp add: TrimRight_Nil)
qed

lemma encode_Inr: "encode b = Inr (TrimRight (enc_Encode b) ''='')"
  by (simp add: encode_def)

lemma length_enc_Encode: "length (enc_Encode b) = EncodedLen (length b)"
proof (induction b rule: enc_Encode.induct)
  case (1 a b c src)
  have "(length src + 3 + 2) div 3 = Suc ((length src + 2) div 3)"
    by simp
  then have "EncodedLen (length (a # b # c # src)) = 4 + EncodedLen (length src)"
    by (simp add: EncodedLen_def add.commute)
  with "1.IH" [OF refl] show ?case
    by (simp add: enc_Encode_quad del: enc_Encode.simps)
qed (simp_all add: EncodedLen_def enc_Encode_pad1 enc_Encode_pad2 del: enc_Encode.simps(1-3))

lemma decode_loop_encode:
  "encode b = Inr e \<Longrightarrow> decode_loop [] (fixPadding e) si = (b, None)"
  by (auto simp: encode_Inr fixPadding_TrimRight_enc_Encode decode_loop_enc_Encode)

lemma encode_no_dot: "encode b = Inr e \<Longrightarrow> CHR ''.'' \<notin> set e"
  using set_TrimRight_enc_Encode [of b] dot_notin by (auto simp: encode_Inr)

section \<open>Claims\<close>

text \<open>
  C7. For every byte sequence \<open>B\<close>, \<^verbatim>\<open>encode\<close> succeeds, and decoding its result after
  \<^verbatim>\<open>fixPadding\<close> has restored the padding yields exactly \<open>B\<close> with no error; a destination
  of \<open>length B\<close> bytes is enough.
\<close>

theorem base64_roundtrip:
  "\<exists>e. encode B = Inr e \<and> decode_loop [] (fixPadding e) 0 = (B, None) \<and>
       enc_Decode (length B) (fixPadding e) = Some (B, None)"
  by (simp add: encode_Inr fixPadding_TrimRight_enc_Encode decode_loop_enc_Encode enc_Decode_def)

end
